theory Spec2Isabelle
  imports Main "HOL-Library.Word"
begin

unbundle bit_operations_syntax

section \<open>The in-memory store of go-api (storage/store.go)\<close>

text \<open>
  The store is a Go generic \<^verbatim>\<open>MemoryStore[T any]\<close> whose \<^verbatim>\<open>Create\<close> and \<^verbatim>\<open>Update\<close>
  inspect the type of their argument with a type switch over
  \<^verbatim>\<open>*models.Item\<close> and \<^verbatim>\<open>*models.Client\<close>. Every method takes the store's lock for
  its whole body, so the methods are modelled as atomic state transformers, one call
  after the other. The two effects the methods have besides the map, reading the clock
  (\<^verbatim>\<open>time.Now()\<close>) and drawing a random identifier (\<^verbatim>\<open>uuid.New()\<close>), are modelled by an
  explicit environment that is passed through.
\<close>

subsection \<open>Environment: the clock and the random source\<close>

text \<open>
  A \<^verbatim>\<open>time.Time\<close> obtained from \<^verbatim>\<open>time.Now()\<close> is represented by its reading of the
  process's clock, in nanoseconds. A \<^verbatim>\<open>uuid.UUID\<close> is a \<^verbatim>\<open>[16]byte\<close>.
\<close>

type_synonym Time = int
type_synonym UUID = "8 word list"

text \<open>
  The environment holds what the outside world will answer: \<open>now w n\<close> is the value of
  the \<open>n\<close>-th call of \<^verbatim>\<open>time.Now()\<close> in the process and \<open>uuids w n\<close> the value of the
  \<open>n\<close>-th call of \<^verbatim>\<open>uuid.New()\<close>; \<open>ticks\<close> and \<open>draws\<close> count the calls made so far.
\<close>

record env =
  uuids :: "nat \<Rightarrow> UUID"
  draws :: nat
  now :: "nat \<Rightarrow> Time"
  ticks :: nat

definition time_Now :: "env \<Rightarrow> Time \<times> env" where
  "time_Now w = (now w (ticks w), w\<lparr>ticks := Suc (ticks w)\<rparr>)"

definition uuid_New :: "env \<Rightarrow> UUID \<times> env" where
  "uuid_New w = (uuids w (draws w), w\<lparr>draws := Suc (draws w)\<rparr>)"

text \<open>
  \<^verbatim>\<open>UUID.String()\<close> of github.com/google/uuid: the lower-case hexadecimal digits of the
  bytes (\<^verbatim>\<open>hex.Encode\<close>: \<^verbatim>\<open>hextable[v>>4]\<close>, \<^verbatim>\<open>hextable[v&0x0f]\<close>), in the groups
  \<^verbatim>\<open>uuid[:4]\<close>, \<^verbatim>\<open>uuid[4:6]\<close>, \<^verbatim>\<open>uuid[6:8]\<close>, \<^verbatim>\<open>uuid[8:10]\<close>, \<^verbatim>\<open>uuid[10:]\<close> separated by
  hyphens.
\<close>

definition hextable :: string where
  "hextable = ''0123456789abcdef''"

fun hex_Encode :: "8 word list \<Rightarrow> string" where
  "hex_Encode [] = []"
| "hex_Encode (v # src) =
     hextable ! unat (drop_bit 4 v) # hextable ! unat (v AND 0x0f) # hex_Encode src"

definition UUID_String :: "UUID \<Rightarrow> string" where
  "UUID_String u =
     hex_Encode (take 4 u) @ ''-'' @
     hex_Encode (take 2 (drop 4 u)) @ ''-'' @
     hex_Encode (take 2 (drop 6 u)) @ ''-'' @
     hex_Encode (take 2 (drop 8 u)) @ ''-'' @
     hex_Encode (drop 10 u)"

subsection \<open>Record shapes\<close>

text \<open>
  Modelled from the spec: the package \<^verbatim>\<open>models\<close> (the declarations of \<^verbatim>\<open>models.Item\<close>
  and \<^verbatim>\<open>models.Client\<close>) is not among the sources. The store uses the fields \<^verbatim>\<open>ID\<close>,
  \<^verbatim>\<open>CreatedAt\<close> and \<^verbatim>\<open>UpdatedAt\<close>; the spec gives every record shape a string
  identifier, a creation and a last-modified timestamp plus its own fields. The own
  fields are those of the README's architecture diagram and of the requests of the
  example script: name and description for an item; name, email and phone for a client.
\<close>

record Item =
  ID :: string
  Name :: string
  Description :: string
  CreatedAt :: Time
  UpdatedAt :: Time

record Client =
  ID :: string
  Name :: string
  Email :: string
  Phone :: string
  CreatedAt :: Time
  UpdatedAt :: Time

text \<open>
  The record shape that ADDING\_RESOURCES.md adds as a third resource, stored in a
  \<^verbatim>\<open>MemoryStore[models.Order]\<close>. \<^verbatim>\<open>Quantity\<close> is a Go \<^verbatim>\<open>int\<close> and \<^verbatim>\<open>Total\<close> a
  \<^verbatim>\<open>float64\<close>, kept as its 64 bits: the store never computes with either.
\<close>

record Order =
  ID :: string
  ClientID :: string
  ItemID :: string
  Quantity :: "64 word"
  Total :: "64 word"
  Status :: string
  CreatedAt :: Time
  UpdatedAt :: Time

text \<open>
  A value of the type parameter \<^verbatim>\<open>T\<close>, tagged with what \<^verbatim>\<open>T\<close> is. The type
  switches \<^verbatim>\<open>switch v := any(&data).(type)\<close> look at the type \<^verbatim>\<open>*T\<close> of the pointer:
  \<^verbatim>\<open>T\<close> is \<^verbatim>\<open>models.Item\<close>, \<^verbatim>\<open>models.Client\<close>, or any other type \<open>'o\<close>.
\<close>

datatype 'o T = TItem Item | TClient Client | TOther 'o

datatype ty = ItemTy | ClientTy | OtherTy

fun typeOf :: "'o T \<Rightarrow> ty" where
  "typeOf (TItem _) = ItemTy"
| "typeOf (TClient _) = ClientTy"
| "typeOf (TOther _) = OtherTy"

subsection \<open>The store and its five operations\<close>

text \<open>
  \<^verbatim>\<open>type MemoryStore[T any] struct { mu sync.RWMutex; items map[string]T }\<close>. The lock
  has no state between two calls and is left out.
\<close>

record 'o MemoryStore =
  items :: "string \<rightharpoonup> 'o T"

definition NewMemoryStore :: "'o MemoryStore" where
  "NewMemoryStore = \<lparr>items = Map.empty\<rparr>"

text \<open>
  \<^verbatim>\<open>GetAll\<close> appends the values in the order in which \<^verbatim>\<open>range s.items\<close> visits the map.
  Go leaves that order to the runtime, so it is an input here: \<open>order\<close> lists the keys
  as the runtime visits them, and \<open>iteration_order\<close> says that it visits every key of
  the map once.
\<close>

definition iteration_order :: "'o MemoryStore \<Rightarrow> string list \<Rightarrow> bool" where
  "iteration_order s order \<longleftrightarrow> distinct order \<and> set order = dom (items s)"

definition GetAll :: "'o MemoryStore \<Rightarrow> string list \<Rightarrow> 'o T list" where
  "GetAll s order = List.map_filter (items s) order"

text \<open>
  \<^verbatim>\<open>GetByID\<close> returns \<^verbatim>\<open>(item, exists)\<close>; the pair \<^verbatim>\<open>(zero, false)\<close> of an absent key is
  \<open>None\<close> and \<^verbatim>\<open>(item, true)\<close> is \<open>Some item\<close>. The same holds for the result of
  \<^verbatim>\<open>Update\<close>.
\<close>

definition GetByID :: "'o MemoryStore \<Rightarrow> string \<Rightarrow> 'o T option" where
  "GetByID s ident = items s ident"

text \<open>
  \<^verbatim>\<open>Create\<close>: the type switch has the two cases \<^verbatim>\<open>*models.Item\<close> and \<^verbatim>\<open>*models.Client\<close>
  and no default. \<open>v\<close> points to \<open>data\<close>, so the assignments to \<open>v\<close> are assignments
  to the \<open>data\<close> that is returned. The clock is read twice.
\<close>

definition Create :: "'o MemoryStore \<Rightarrow> 'o T \<Rightarrow> env \<Rightarrow> 'o T \<times> 'o MemoryStore \<times> env" where
  "Create s data w =
     (case data of
        TItem v \<Rightarrow>
          (let (u, w1) = uuid_New w;
               v = v\<lparr>Item.ID := UUID_String u\<rparr>;
               (t1, w2) = time_Now w1;
               v = v\<lparr>Item.CreatedAt := t1\<rparr>;
               (t2, w3) = time_Now w2;
               v = v\<lparr>Item.UpdatedAt := t2\<rparr>
           in (TItem v, s\<lparr>items := (items s)(Item.ID v \<mapsto> TItem v)\<rparr>, w3))
      | TClient v \<Rightarrow>
          (let (u, w1) = uuid_New w;
               v = v\<lparr>Client.ID := UUID_String u\<rparr>;
               (t1, w2) = time_Now w1;
               v = v\<lparr>Client.CreatedAt := t1\<rparr>;
               (t2, w3) = time_Now w2;
               v = v\<lparr>Client.UpdatedAt := t2\<rparr>
           in (TClient v, s\<lparr>items := (items s)(Client.ID v \<mapsto> TClient v)\<rparr>, w3))
      | TOther _ \<Rightarrow> (data, s, w))"

text \<open>
  \<^verbatim>\<open>Update\<close>: an absent key returns before anything else happens. In the two cases of
  the type switch the old value is converted with a single-value type assertion
  (\<^verbatim>\<open>any(old).(models.Item)\<close>), which panics when the stored value has another type.
  In Go all values of a \<^verbatim>\<open>MemoryStore[T]\<close> have the type \<^verbatim>\<open>T\<close>, which excludes that
  (\<open>typed\<close> below); here the panic is a result of its own.
\<close>

datatype error = TypeAssertionPanic

definition Update ::
  "'o MemoryStore \<Rightarrow> string \<Rightarrow> 'o T \<Rightarrow> env \<Rightarrow> error + ('o T option \<times> 'o MemoryStore \<times> env)" where
  "Update s ident data w =
     (case items s ident of
        None \<Rightarrow> Inr (None, s, w)
      | Some old \<Rightarrow>
          (case data of
             TItem v \<Rightarrow>
               (case old of
                  TItem oldItem \<Rightarrow>
                    (let v = v\<lparr>Item.ID := ident\<rparr>;
                         v = v\<lparr>Item.CreatedAt := Item.CreatedAt oldItem\<rparr>;
                         (t, w1) = time_Now w;
                         v = v\<lparr>Item.UpdatedAt := t\<rparr>
                     in Inr (Some (TItem v), s\<lparr>items := (items s)(ident \<mapsto> TItem v)\<rparr>, w1))
                | _ \<Rightarrow> Inl TypeAssertionPanic)
           | TClient v \<Rightarrow>
               (case old of
                  TClient oldClient \<Rightarrow>
                    (let v = v\<lparr>Client.ID := ident\<rparr>;
                         v = v\<lparr>Client.CreatedAt := Client.CreatedAt oldClient\<rparr>;
                         (t, w1) = time_Now w;
                         v = v\<lparr>Client.UpdatedAt := t\<rparr>
                     in Inr (Some (TClient v), s\<lparr>items := (items s)(ident \<mapsto> TClient v)\<rparr>, w1))
                | _ \<Rightarrow> Inl TypeAssertionPanic)
           | TOther _ \<Rightarrow> Inr (Some data, s, w)))"

definition Delete :: "'o MemoryStore \<Rightarrow> string \<Rightarrow> bool \<times> 'o MemoryStore" where
  "Delete s ident =
     (case items s ident of
        None \<Rightarrow> (False, s)
      | Some _ \<Rightarrow> (True, s\<lparr>items := (items s)(ident := None)\<rparr>))"

subsection \<open>Sequences of calls and reachable states\<close>

text \<open>A client that calls \<^verbatim>\<open>Create\<close> once for each element of a list, in order.\<close>

fun creates :: "'o MemoryStore \<Rightarrow> 'o T list \<Rightarrow> env \<Rightarrow> 'o T list \<times> 'o MemoryStore \<times> env" where
  "creates s [] w = ([], s, w)"
| "creates s (d # ds) w =
     (let (r, s1, w1) = Create s d w;
          (rs, s2, w2) = creates s1 ds w1
      in (r # rs, s2, w2))"

text \<open>
  One step of a \<^verbatim>\<open>MemoryStore[T]\<close> whose type parameter is \<open>t\<close>: a
  call of one of the five methods with arguments of that type, or activity elsewhere in
  the process that reads the clock or draws identifiers (the health handler, the other
  store). \<^verbatim>\<open>GetAll\<close> and \<^verbatim>\<open>GetByID\<close> only read. A call of \<^verbatim>\<open>Update\<close> that panics has
  no successor state.
\<close>

inductive step :: "ty \<Rightarrow> 'o MemoryStore \<times> env \<Rightarrow> 'o MemoryStore \<times> env \<Rightarrow> bool" for t :: ty where
  read: "step t (s, w) (s, w)"
| elsewhere: "step t (s, w) (s, w\<lparr>draws := draws w + m, ticks := ticks w + n\<rparr>)"
| create: "typeOf data = t \<Longrightarrow> Create s data w = (r, s', w') \<Longrightarrow> step t (s, w) (s', w')"
| update: "typeOf data = t \<Longrightarrow> Update s ident data w = Inr (r, s', w') \<Longrightarrow> step t (s, w) (s', w')"
| delete: "Delete s ident = (b, s') \<Longrightarrow> step t (s, w) (s', w)"

text \<open>The states a store can be in: \<^verbatim>\<open>NewMemoryStore\<close> followed by any number of steps.\<close>

inductive reachable :: "ty \<Rightarrow> 'o MemoryStore \<times> env \<Rightarrow> bool" for t :: ty where
  new: "reachable t (NewMemoryStore, w)"
| after: "reachable t c \<Longrightarrow> step t c c' \<Longrightarrow> reachable t c'"

subsection \<open>Vocabulary of the specification\<close>

text \<open>
  The identifier and the two timestamps of a record, for the shapes whose fields the
  store can address; the store has no access to the fields of any other shape.
\<close>

fun getID :: "'o T \<Rightarrow> string option" where
  "getID (TItem v) = Some (Item.ID v)"
| "getID (TClient v) = Some (Client.ID v)"
| "getID (TOther _) = None"

fun getCreatedAt :: "'o T \<Rightarrow> Time option" where
  "getCreatedAt (TItem v) = Some (Item.CreatedAt v)"
| "getCreatedAt (TClient v) = Some (Client.CreatedAt v)"
| "getCreatedAt (TOther _) = None"

fun getUpdatedAt :: "'o T \<Rightarrow> Time option" where
  "getUpdatedAt (TItem v) = Some (Item.UpdatedAt v)"
| "getUpdatedAt (TClient v) = Some (Client.UpdatedAt v)"
| "getUpdatedAt (TOther _) = None"

text \<open>
  The fields of a record other than the identifier and the two timestamps: the record
  with these three set to their zero values. Two records agree on every other field
  when their \<open>own_fields\<close> are equal.
\<close>

fun own_fields :: "'o T \<Rightarrow> 'o T" where
  "own_fields (TItem v) = TItem (v\<lparr>Item.ID := [], Item.CreatedAt := 0, Item.UpdatedAt := 0\<rparr>)"
| "own_fields (TClient v) =
     TClient (v\<lparr>Client.ID := [], Client.CreatedAt := 0, Client.UpdatedAt := 0\<rparr>)"
| "own_fields (TOther x) = TOther x"

text \<open>Every stored value has the type of the store's type parameter \<open>t\<close>.\<close>

definition typed :: "ty \<Rightarrow> 'o MemoryStore \<Rightarrow> bool" where
  "typed t s \<longleftrightarrow> (\<forall>k r. items s k = Some r \<longrightarrow> typeOf r = t)"

text \<open>Every key of the map is the identifier of the record stored under it.\<close>

definition key_field_agreement :: "'o MemoryStore \<Rightarrow> bool" where
  "key_field_agreement s \<longleftrightarrow> (\<forall>k r. items s k = Some r \<longrightarrow> getID r = Some k)"

text \<open>
  The clock never runs backwards: a later call of \<^verbatim>\<open>time.Now()\<close> does not return an
  earlier time (Go compares two readings of one process by their monotonic part).
\<close>

definition clock_monotone :: "env \<Rightarrow> bool" where
  "clock_monotone w \<longleftrightarrow> (\<forall>i j. i \<le> j \<longrightarrow> now w i \<le> now w j)"

text \<open>No record is stored under the empty string.\<close>

definition keys_not_empty :: "'o MemoryStore \<Rightarrow> bool" where
  "keys_not_empty s \<longleftrightarrow> items s [] = None"

text \<open>
  No stored modification timestamp is later than what the clock will answer from now
  on: every stored timestamp is a reading that has already been taken.
\<close>

definition not_after_clock :: "'o MemoryStore \<Rightarrow> env \<Rightarrow> bool" where
  "not_after_clock s w \<longleftrightarrow>
     (\<forall>k r u n. items s k = Some r \<longrightarrow> getUpdatedAt r = Some u \<longrightarrow> ticks w \<le> n \<longrightarrow> u \<le> now w n)"

text \<open>
  What holds of every state of a store with type parameter \<open>t\<close>; the part about the
  timestamps depends on the clock not running backwards.
\<close>

definition invariant :: "ty \<Rightarrow> 'o MemoryStore \<times> env \<Rightarrow> bool" where
  "invariant t c \<longleftrightarrow>
     typed t (fst c) \<and> key_field_agreement (fst c) \<and> keys_not_empty (fst c) \<and>
     (clock_monotone (snd c) \<longrightarrow> not_after_clock (fst c) (snd c))"

text \<open>
  The next \<open>n\<close> identifiers drawn are well-formed (16 bytes) and do not collide: the
  spec treats the probability of a collision as zero.
\<close>

definition collision_free :: "env \<Rightarrow> nat \<Rightarrow> bool" where
  "collision_free w n \<longleftrightarrow>
     (\<forall>i < n. length (uuids w (draws w + i)) = 16) \<and>
     distinct (map (uuids w) [draws w ..< draws w + n])"

subsection \<open>Example values\<close>

text \<open>
  An environment whose clock advances by one nanosecond at every reading and whose
  \<open>n\<close>-th identifier ends in the byte \<open>n\<close>.
\<close>

definition env0 :: env where
  "env0 = \<lparr>uuids = (\<lambda>n. replicate 15 0 @ [of_nat n]), draws = 0, now = int, ticks = 0\<rparr>"

definition laptop :: Item where
  "laptop = \<lparr>Item.ID = [], Name = ''Laptop'', Description = [],
     CreatedAt = 0, UpdatedAt = 0\<rparr>"

definition laptop_pro :: Item where
  "laptop_pro = \<lparr>Item.ID = [], Name = ''Laptop Pro'', Description = [],
     CreatedAt = 0, UpdatedAt = 0\<rparr>"

definition phone :: Item where
  "phone = \<lparr>Item.ID = [], Name = ''iPhone 15'', Description = ''Pro Max, 256GB'',
     CreatedAt = 0, UpdatedAt = 0\<rparr>"

text \<open>
  The states of a store of items in the example environment: after the laptop has been
  created, and after the phone has been created too. \<open>id1\<close> and \<open>id2\<close> are the strings
  of the first two identifiers of that environment.
\<close>

definition id1 :: string where
  "id1 = ''00000000-0000-0000-0000-000000000000''"

definition id2 :: string where
  "id2 = ''00000000-0000-0000-0000-000000000001''"

definition laptop1 :: "unit T" where
  "laptop1 = fst (Create NewMemoryStore (TItem laptop) env0)"

definition store1 :: "unit MemoryStore" where
  "store1 = fst (snd (Create NewMemoryStore (TItem laptop) env0))"

definition env1 :: env where
  "env1 = snd (snd (Create (NewMemoryStore :: unit MemoryStore) (TItem laptop) env0))"

definition phone1 :: "unit T" where
  "phone1 = fst (Create store1 (TItem phone) env1)"

definition store2 :: "unit MemoryStore" where
  "store2 = fst (snd (Create store1 (TItem phone) env1))"

definition env2 :: env where
  "env2 = snd (snd (Create store1 (TItem phone) env1))"

definition alice :: Client where
  "alice = \<lparr>Client.ID = ''chosen-by-caller'', Name = ''Alice Smith'',
     Email = ''alice@example.com'', Phone = ''555-0101'', CreatedAt = 7, UpdatedAt = 9\<rparr>"

definition pending :: Order where
  "pending = \<lparr>Order.ID = [], ClientID = ''abc'', ItemID = ''xyz'', Quantity = 2,
     Total = 0x4068FFAE147AE148, Status = ''pending'', CreatedAt = 0, UpdatedAt = 0\<rparr>"

section \<open>Properties\<close>

subsection \<open>The methods in closed form\<close>

lemma Create_TItem:
  "Create s (TItem v) w =
     (TItem (v\<lparr>Item.ID := UUID_String (uuids w (draws w)), Item.CreatedAt := now w (ticks w),
              Item.UpdatedAt := now w (Suc (ticks w))\<rparr>),
      s\<lparr>items := (items s)(UUID_String (uuids w (draws w)) \<mapsto>
           TItem (v\<lparr>Item.ID := UUID_String (uuids w (draws w)), Item.CreatedAt := now w (ticks w),
              Item.UpdatedAt := now w (Suc (ticks w))\<rparr>))\<rparr>,
      w\<lparr>draws := Suc (draws w), ticks := Suc (Suc (ticks w))\<rparr>)"
  by (simp add: Create_def uuid_New_def time_Now_def Let_def)

lemma Create_TClient:
  "Create s (TClient v) w =
     (TClient (v\<lparr>Client.ID := UUID_String (uuids w (draws w)), Client.CreatedAt := now w (ticks w),
              Client.UpdatedAt := now w (Suc (ticks w))\<rparr>),
      s\<lparr>items := (items s)(UUID_String (uuids w (draws w)) \<mapsto>
           TClient (v\<lparr>Client.ID := UUID_String (uuids w (draws w)), Client.CreatedAt := now w (ticks w),
              Client.UpdatedAt := now w (Suc (ticks w))\<rparr>))\<rparr>,
      w\<lparr>draws := Suc (draws w), ticks := Suc (Suc (ticks w))\<rparr>)"
  by (simp add: Create_def uuid_New_def time_Now_def Let_def)

lemma Create_TOther: "Create s (TOther x) w = (TOther x, s, w)"
  by (simp add: Create_def)

lemma Create_unlisted: "typeOf data = OtherTy \<Longrightarrow> Create s data w = (data, s, w)"
  by (cases data) (simp_all add: Create_TOther)

lemma Update_absent: "items s ident = None \<Longrightarrow> Update s ident data w = Inr (None, s, w)"
  by (simp add: Update_def)

lemma Update_TItem:
  "items s ident = Some (TItem old) \<Longrightarrow>
   Update s ident (TItem v) w =
     Inr (Some (TItem (v\<lparr>Item.ID := ident, Item.CreatedAt := Item.CreatedAt old,
                 Item.UpdatedAt := now w (ticks w)\<rparr>)),
          s\<lparr>items := (items s)(ident \<mapsto>
             TItem (v\<lparr>Item.ID := ident, Item.CreatedAt := Item.CreatedAt old,
                 Item.UpdatedAt := now w (ticks w)\<rparr>))\<rparr>,
          w\<lparr>ticks := Suc (ticks w)\<rparr>)"
  by (simp add: Update_def time_Now_def Let_def)

lemma Update_TClient:
  "items s ident = Some (TClient old) \<Longrightarrow>
   Update s ident (TClient v) w =
     Inr (Some (TClient (v\<lparr>Client.ID := ident, Client.CreatedAt := Client.CreatedAt old,
                 Client.UpdatedAt := now w (ticks w)\<rparr>)),
          s\<lparr>items := (items s)(ident \<mapsto>
             TClient (v\<lparr>Client.ID := ident, Client.CreatedAt := Client.CreatedAt old,
                 Client.UpdatedAt := now w (ticks w)\<rparr>))\<rparr>,
          w\<lparr>ticks := Suc (ticks w)\<rparr>)"
  by (simp add: Update_def time_Now_def Let_def)

lemma Update_TOther:
  "items s ident = Some old \<Longrightarrow> Update s ident (TOther x) w = Inr (Some (TOther x), s, w)"
  by (simp add: Update_def)

lemma Delete_absent: "items s ident = None \<Longrightarrow> Delete s ident = (False, s)"
  by (simp add: Delete_def)

lemma Delete_present:
  "items s ident = Some old \<Longrightarrow> Delete s ident = (True, s\<lparr>items := (items s)(ident := None)\<rparr>)"
  by (simp add: Delete_def)

lemma items_NewMemoryStore: "items NewMemoryStore k = None"
  by (simp add: NewMemoryStore_def)

text \<open>
  The two listed shapes at once: what \<^verbatim>\<open>Create\<close> does for any record of a listed
  shape, what \<^verbatim>\<open>Update\<close> does when the stored record has the type of the new one,
  and the panic of the type assertion when it has not.
\<close>

lemma Create_listed:
  assumes "typeOf data \<noteq> OtherTy"
  shows "\<exists>r. Create s data w =
           (r, s\<lparr>items := (items s)(UUID_String (uuids w (draws w)) \<mapsto> r)\<rparr>,
            w\<lparr>draws := Suc (draws w), ticks := Suc (Suc (ticks w))\<rparr>) \<and>
         typeOf r = typeOf data \<and> getID r = Some (UUID_String (uuids w (draws w))) \<and>
         getCreatedAt r = Some (now w (ticks w)) \<and> getUpdatedAt r = Some (now w (Suc (ticks w))) \<and>
         own_fields r = own_fields data"
  using assms by (cases data) (simp_all add: Create_TItem Create_TClient)

lemma Update_present:
  assumes "items s ident = Some old" and "typeOf old = typeOf data" and "typeOf data \<noteq> OtherTy"
  shows "\<exists>r. Update s ident data w =
           Inr (Some r, s\<lparr>items := (items s)(ident \<mapsto> r)\<rparr>, w\<lparr>ticks := Suc (ticks w)\<rparr>) \<and>
         typeOf r = typeOf data \<and> getID r = Some ident \<and>
         getCreatedAt r = getCreatedAt old \<and> getUpdatedAt r = Some (now w (ticks w)) \<and>
         own_fields r = own_fields data"
proof (cases data)
  case (TItem v)
  with assms obtain ov where "old = TItem ov" by (cases old) simp_all
  with assms(1) TItem show ?thesis by (simp add: Update_TItem)
next
  case (TClient v)
  with assms obtain ov where "old = TClient ov" by (cases old) simp_all
  with assms(1) TClient show ?thesis by (simp add: Update_TClient)
next
  case (TOther x)
  with assms(3) show ?thesis by simp
qed

lemma Update_mismatch:
  assumes "items s ident = Some old" and "typeOf old \<noteq> typeOf data" and "typeOf data \<noteq> OtherTy"
  shows "Update s ident data w = Inl TypeAssertionPanic"
  using assms by (cases data; cases old) (simp_all add: Update_def)

subsection \<open>Identifiers\<close>

lemma hex_Encode_length: "length (hex_Encode bs) = 2 * length bs"
  by (induction bs) simp_all

lemma hi_nibble_bound: "unat (drop_bit 4 (v :: 8 word)) < 16"
proof -
  have "unat v < 2 ^ 8" using unsigned_less [of v] by simp
  then have "drop_bit 4 (unat v) < 16" by (simp add: drop_bit_eq_div)
  then show ?thesis by (simp only: unat_drop_bit_eq)
qed

lemma lo_nibble_bound: "unat ((v :: 8 word) AND 0x0f) < 16"
proof -
  have "(0x0f :: 8 word) = mask 4" by (simp add: mask_eq_exp_minus_1)
  then have "unat (v AND 0x0f) = take_bit 4 (unat v)"
    by (simp only: flip: take_bit_eq_mask unsigned_take_bit_eq)
  then show ?thesis by (simp add: take_bit_eq_mod)
qed

lemma hextable_inj: "i < 16 \<Longrightarrow> j < 16 \<Longrightarrow> hextable ! i = hextable ! j \<Longrightarrow> i = j"
  by (simp add: hextable_def nth_eq_iff_index_eq)

lemma byte_from_nibbles:
  fixes a b :: "8 word"
  assumes "drop_bit 4 a = drop_bit 4 b" and "a AND 0x0f = b AND 0x0f"
  shows "a = b"
proof (rule bit_eqI)
  fix n
  have m: "(0x0f :: 8 word) = mask 4" by (simp add: mask_eq_exp_minus_1)
  show "bit a n = bit b n"
  proof (cases "n < 4")
    case True
    have "bit (take_bit 4 a) n = bit (take_bit 4 b) n"
      using assms(2) unfolding m by (simp add: take_bit_eq_mask)
    then show ?thesis using True by (simp add: bit_take_bit_iff)
  next
    case False
    have "bit (drop_bit 4 a) (n - 4) = bit (drop_bit 4 b) (n - 4)" using assms(1) by simp
    then show ?thesis using False by (simp add: bit_drop_bit_eq)
  qed
qed

lemma hex_Encode_inj: "hex_Encode as = hex_Encode bs \<Longrightarrow> as = bs"
proof (induction as arbitrary: bs)
  case Nil
  then show ?case by (cases bs) simp_all
next
  case (Cons a as)
  then obtain b bs' where bs: "bs = b # bs'" by (cases bs) auto
  from Cons.prems bs have hi: "hextable ! unat (drop_bit 4 a) = hextable ! unat (drop_bit 4 b)"
    and lo: "hextable ! unat (a AND 0x0f) = hextable ! unat (b AND 0x0f)"
    and rest: "hex_Encode as = hex_Encode bs'" by simp_all
  from hi have "unat (drop_bit 4 a) = unat (drop_bit 4 b)"
    by (rule hextable_inj [OF hi_nibble_bound hi_nibble_bound])
  moreover from lo have "unat (a AND 0x0f) = unat (b AND 0x0f)"
    by (rule hextable_inj [OF lo_nibble_bound lo_nibble_bound])
  ultimately have "drop_bit 4 a = drop_bit 4 b" and "a AND 0x0f = b AND 0x0f"
    by (simp_all only: word_unat_eq_iff)
  then have "a = b" by (rule byte_from_nibbles)
  with Cons.IH [OF rest] bs show ?case by simp
qed

lemma UUID_String_inj:
  assumes "length a = 16" and "length b = 16" and eq: "UUID_String a = UUID_String b"
  shows "a = b"
proof -
  have split: "u = take 4 u @ take 2 (drop 4 u) @ take 2 (drop 6 u) @ take 2 (drop 8 u) @ drop 10 u"
    for u :: UUID
  proof -
    have "take 2 (drop 8 u) @ drop 10 u = drop 8 u"
      using append_take_drop_id [of 2 "drop 8 u"] by simp
    moreover have "take 2 (drop 6 u) @ drop 8 u = drop 6 u"
      using append_take_drop_id [of 2 "drop 6 u"] by simp
    moreover have "take 2 (drop 4 u) @ drop 6 u = drop 4 u"
      using append_take_drop_id [of 2 "drop 4 u"] by simp
    ultimately show ?thesis by simp
  qed
  from eq assms(1,2)
  have "hex_Encode (take 4 a) = hex_Encode (take 4 b)"
    and "hex_Encode (take 2 (drop 4 a)) = hex_Encode (take 2 (drop 4 b))"
    and "hex_Encode (take 2 (drop 6 a)) = hex_Encode (take 2 (drop 6 b))"
    and "hex_Encode (take 2 (drop 8 a)) = hex_Encode (take 2 (drop 8 b))"
    and "hex_Encode (drop 10 a) = hex_Encode (drop 10 b)"
    by (simp_all add: UUID_String_def hex_Encode_length)
  then have "take 4 a = take 4 b" and "take 2 (drop 4 a) = take 2 (drop 4 b)"
    and "take 2 (drop 6 a) = take 2 (drop 6 b)" and "take 2 (drop 8 a) = take 2 (drop 8 b)"
    and "drop 10 a = drop 10 b"
    by (simp_all only: hex_Encode_inj)
  then show ?thesis using split [of a] split [of b] by simp
qed

lemma UUID_String_not_empty: "UUID_String u \<noteq> []"
  by (simp add: UUID_String_def)

lemma UUID_String_length: "length u = 16 \<Longrightarrow> length (UUID_String u) = 36"
  by (simp add: UUID_String_def hex_Encode_length)

subsection \<open>The invariant of the reachable states\<close>

lemma typed_insert:
  "typed t s \<Longrightarrow> typeOf r = t \<Longrightarrow> typed t (s\<lparr>items := (items s)(k \<mapsto> r)\<rparr>)"
  by (simp add: typed_def)

lemma typed_remove: "typed t s \<Longrightarrow> typed t (s\<lparr>items := (items s)(k := None)\<rparr>)"
  by (simp add: typed_def)

lemma agreement_insert:
  "key_field_agreement s \<Longrightarrow> getID r = Some k \<Longrightarrow>
   key_field_agreement (s\<lparr>items := (items s)(k \<mapsto> r)\<rparr>)"
  by (simp add: key_field_agreement_def)

lemma agreement_remove:
  "key_field_agreement s \<Longrightarrow> key_field_agreement (s\<lparr>items := (items s)(k := None)\<rparr>)"
  by (simp add: key_field_agreement_def)

lemma keys_insert:
  "keys_not_empty s \<Longrightarrow> k \<noteq> [] \<Longrightarrow> keys_not_empty (s\<lparr>items := (items s)(k \<mapsto> r)\<rparr>)"
  by (simp add: keys_not_empty_def)

lemma keys_remove: "keys_not_empty s \<Longrightarrow> keys_not_empty (s\<lparr>items := (items s)(k := None)\<rparr>)"
  by (simp add: keys_not_empty_def)

lemma clock_later:
  assumes "not_after_clock s w" and "now w' = now w" and "ticks w \<le> ticks w'"
  shows "not_after_clock s w'"
  using assms unfolding not_after_clock_def by (metis order_trans)

lemma clock_insert:
  assumes "not_after_clock s w" and "clock_monotone w"
    and "getUpdatedAt r = Some (now w n)" and "n \<le> ticks w"
  shows "not_after_clock (s\<lparr>items := (items s)(k \<mapsto> r)\<rparr>) w"
  unfolding not_after_clock_def
proof (intro allI impI)
  fix k' r' u m
  assume stored: "items (s\<lparr>items := (items s)(k \<mapsto> r)\<rparr>) k' = Some r'"
    and u: "getUpdatedAt r' = Some u" and m: "ticks w \<le> m"
  show "u \<le> now w m"
  proof (cases "k' = k")
    case True
    with stored u assms(3) have "u = now w n" by simp
    with assms(2,4) m show ?thesis by (simp add: clock_monotone_def)
  next
    case False
    with stored have "items s k' = Some r'" by simp
    with assms(1) u m show ?thesis unfolding not_after_clock_def by blast
  qed
qed

lemma clock_remove:
  "not_after_clock s w \<Longrightarrow> not_after_clock (s\<lparr>items := (items s)(k := None)\<rparr>) w"
  unfolding not_after_clock_def by (auto split: if_splits)

lemma invariant_new: "invariant t (NewMemoryStore, w)"
  by (simp add: invariant_def typed_def key_field_agreement_def keys_not_empty_def
      not_after_clock_def items_NewMemoryStore)

lemma invariant_step:
  assumes "invariant t c" and "step t c c'"
  shows "invariant t c'"
  using assms(2,1)
proof (cases rule: step.cases)
  case (read s w)
  with assms(1) show ?thesis by simp
next
  case (elsewhere s w m n)
  with assms(1) show ?thesis
    by (auto simp: invariant_def clock_monotone_def elim!: clock_later)
next
  case (create data s w r s' w')
  show ?thesis
  proof (cases "t = OtherTy")
    case True
    with create have "s' = s" "w' = w" by (cases data; simp add: Create_TOther)+
    with create assms(1) show ?thesis by simp
  next
    case False
    let ?k = "UUID_String (uuids w (draws w))"
    let ?w1 = "w\<lparr>draws := Suc (draws w), ticks := Suc (Suc (ticks w))\<rparr>"
    from False create(3) Create_listed [of data s w] create(4)
    have s': "s' = s\<lparr>items := (items s)(?k \<mapsto> r)\<rparr>" and w': "w' = ?w1"
      and r: "typeOf r = t" "getID r = Some ?k" "getUpdatedAt r = Some (now w (Suc (ticks w)))"
      by auto
    from assms(1) create(1) have inv: "typed t s" "key_field_agreement s" "keys_not_empty s"
      "clock_monotone w \<longrightarrow> not_after_clock s w" by (simp_all add: invariant_def)
    have "clock_monotone ?w1 \<longrightarrow> not_after_clock (s\<lparr>items := (items s)(?k \<mapsto> r)\<rparr>) ?w1"
    proof
      assume mono: "clock_monotone ?w1"
      then have mono': "clock_monotone w" by (simp add: clock_monotone_def)
      with inv(4) have old: "not_after_clock s ?w1" by (auto elim!: clock_later)
      show "not_after_clock (s\<lparr>items := (items s)(?k \<mapsto> r)\<rparr>) ?w1"
        by (rule clock_insert [where n = "Suc (ticks w)"]) (use old mono r(3) in simp_all)
    qed
    with inv r s' w' create(2) show ?thesis
      by (simp add: invariant_def typed_insert agreement_insert keys_insert UUID_String_not_empty)
  qed
next
  case (update data s ident w r s' w')
  from assms(1) update(1) have inv: "typed t s" "key_field_agreement s" "keys_not_empty s"
    "clock_monotone w \<longrightarrow> not_after_clock s w" by (simp_all add: invariant_def)
  show ?thesis
  proof (cases "items s ident")
    case None
    with update(4) have "s' = s" "w' = w" by (simp_all add: Update_absent)
    with update assms(1) show ?thesis by simp
  next
    case (Some old)
    with inv(1) update(3) have ty: "typeOf old = typeOf data" by (simp add: typed_def)
    from Some inv(3) have ne: "ident \<noteq> []" by (auto simp: keys_not_empty_def)
    show ?thesis
    proof (cases "t = OtherTy")
      case True
      with update(3,4) Some have "s' = s" "w' = w" by (cases data; simp add: Update_TOther)+
      with update assms(1) show ?thesis by simp
    next
      case False
      let ?w1 = "w\<lparr>ticks := Suc (ticks w)\<rparr>"
      from False update(3) Update_present [OF Some ty, of w] update(4)
      have s': "s' = s\<lparr>items := (items s)(ident \<mapsto> the r)\<rparr>" and w': "w' = ?w1"
        and r: "typeOf (the r) = t" "getID (the r) = Some ident"
          "getUpdatedAt (the r) = Some (now w (ticks w))"
        by auto
      have "clock_monotone ?w1 \<longrightarrow> not_after_clock (s\<lparr>items := (items s)(ident \<mapsto> the r)\<rparr>) ?w1"
      proof
        assume mono: "clock_monotone ?w1"
        then have mono': "clock_monotone w" by (simp add: clock_monotone_def)
        with inv(4) have old: "not_after_clock s ?w1" by (auto elim!: clock_later)
        show "not_after_clock (s\<lparr>items := (items s)(ident \<mapsto> the r)\<rparr>) ?w1"
          by (rule clock_insert [where n = "ticks w"]) (use old mono r(3) in simp_all)
      qed
      with inv r s' w' ne update(2) show ?thesis
        by (simp add: invariant_def typed_insert agreement_insert keys_insert)
    qed
  qed
next
  case (delete s ident b s' w)
  from assms(1) delete(1) have inv: "typed t s" "key_field_agreement s" "keys_not_empty s"
    "clock_monotone w \<longrightarrow> not_after_clock s w" by (simp_all add: invariant_def)
  from delete(3) have "s' = s \<or> s' = s\<lparr>items := (items s)(ident := None)\<rparr>"
    by (auto simp: Delete_def split: option.splits)
  with inv delete(2) show ?thesis
    by (auto simp: invariant_def typed_remove agreement_remove keys_remove clock_remove)
qed

lemma reachable_invariant: "reachable t c \<Longrightarrow> invariant t c"
  by (induction rule: reachable.induct) (auto intro: invariant_new invariant_step)

lemma reachable_facts:
  assumes "reachable t (s, w)"
  shows "typed t s" and "key_field_agreement s" and "keys_not_empty s"
    and "clock_monotone w \<Longrightarrow> not_after_clock s w"
  using reachable_invariant [OF assms] by (simp_all add: invariant_def)

lemma reachable_present:
  assumes "reachable t (s, w)" and "items s ident = Some old"
  shows "typeOf old = t" and "t \<noteq> OtherTy" and "getID old = Some ident" and "ident \<noteq> []"
proof -
  from reachable_facts(1) [OF assms(1)] assms(2) show ty: "typeOf old = t"
    by (simp add: typed_def)
  from reachable_facts(2) [OF assms(1)] assms(2) show i: "getID old = Some ident"
    by (simp add: key_field_agreement_def)
  from ty i show "t \<noteq> OtherTy" by (cases old) auto
  from reachable_facts(3) [OF assms(1)] assms(2) show "ident \<noteq> []"
    by (auto simp: keys_not_empty_def)
qed

lemma GetAll_set: "set (GetAll s order) = {r. \<exists>k \<in> set order. items s k = Some r}"
  by (induction order) (auto simp: GetAll_def split: option.splits)

subsection \<open>The example states\<close>

lemma clock_monotone_env0: "clock_monotone env0"
  by (simp add: clock_monotone_def env0_def)

lemma first_uuid: "UUID_String (uuids env0 0) = id1"
  by code_simp

lemma second_uuid: "UUID_String (uuids env0 (Suc 0)) = id2"
  by code_simp

lemma id1_not_id2: "id1 \<noteq> id2"
  by (simp add: id1_def id2_def)

lemma env0_fields: "draws env0 = 0" "ticks env0 = 0" "now env0 n = int n"
  by (simp_all add: env0_def)

lemma env1_fields:
  "draws env1 = Suc 0" "ticks env1 = Suc (Suc 0)" "now env1 n = int n" "uuids env1 = uuids env0"
  by (simp_all add: env1_def Create_TItem env0_fields)

lemma env2_fields:
  "draws env2 = Suc (Suc 0)" "ticks env2 = Suc (Suc (Suc (Suc 0)))" "now env2 n = int n"
  "uuids env2 = uuids env0"
  by (simp_all add: env2_def Create_TItem env1_fields)

lemma laptop1_eq:
  "laptop1 = TItem (laptop\<lparr>Item.ID := id1, Item.CreatedAt := 0, Item.UpdatedAt := 1\<rparr>)"
  by (simp add: laptop1_def Create_TItem env0_fields first_uuid)

lemma phone1_eq:
  "phone1 = TItem (phone\<lparr>Item.ID := id2, Item.CreatedAt := 2, Item.UpdatedAt := 3\<rparr>)"
  by (simp add: phone1_def Create_TItem env1_fields second_uuid)

lemma items_store1: "items store1 = [id1 \<mapsto> laptop1]"
  by (simp add: store1_def laptop1_def Create_TItem env0_fields first_uuid
      items_NewMemoryStore [abs_def])

lemma items_store2: "items store2 = [id1 \<mapsto> laptop1, id2 \<mapsto> phone1]"
  by (simp add: store2_def phone1_def Create_TItem env1_fields second_uuid items_store1)

lemma reachable_store2: "reachable ItemTy (store2, env2)"
proof -
  have "Create NewMemoryStore (TItem laptop) env0 = (laptop1, store1, env1)"
    by (simp add: laptop1_def store1_def env1_def)
  then have "step ItemTy (NewMemoryStore, env0) (store1, env1)"
    by (rule step.create [rotated]) simp
  with reachable.new have "reachable ItemTy (store1, env1)" by (rule reachable.after)
  moreover have "Create store1 (TItem phone) env1 = (phone1, store2, env2)"
    by (simp add: phone1_def store2_def env2_def)
  then have "step ItemTy (store1, env1) (store2, env2)"
    by (rule step.create [rotated]) simp
  ultimately show ?thesis by (rule reachable.after)
qed

lemma clock_monotone_env2: "clock_monotone env2"
  by (simp add: clock_monotone_def env2_fields)

lemma laptop1_in_store2: "items store2 id1 = Some laptop1"
  by (simp add: items_store2 id1_not_id2)

lemma phone1_in_store2: "items store2 id2 = Some phone1"
  by (simp add: items_store2)

lemma updated_laptop_differs:
  "TItem (laptop_pro\<lparr>Item.ID := id1, Item.CreatedAt := 0, Item.UpdatedAt := 4\<rparr>) \<noteq> laptop1"
  by (simp add: laptop1_eq laptop_def laptop_pro_def)

subsection \<open>Sequences of Create on a fresh store\<close>

lemma Create_ignores_assigned:
  assumes "own_fields d = own_fields d'"
  shows "Create s d w = Create s d' w"
proof (cases d)
  case (TItem v)
  with assms obtain v' where d': "d' = TItem v'" by (cases d') simp_all
  with assms TItem
  have "v\<lparr>Item.ID := [], Item.CreatedAt := 0, Item.UpdatedAt := 0\<rparr> =
        v'\<lparr>Item.ID := [], Item.CreatedAt := 0, Item.UpdatedAt := 0\<rparr>" by simp
  then have "v\<lparr>Item.ID := i, Item.CreatedAt := c, Item.UpdatedAt := u\<rparr> =
        v'\<lparr>Item.ID := i, Item.CreatedAt := c, Item.UpdatedAt := u\<rparr>" for i c u
    by (cases v; cases v') simp
  with TItem d' show ?thesis by (simp add: Create_TItem)
next
  case (TClient v)
  with assms obtain v' where d': "d' = TClient v'" by (cases d') simp_all
  with assms TClient
  have "v\<lparr>Client.ID := [], Client.CreatedAt := 0, Client.UpdatedAt := 0\<rparr> =
        v'\<lparr>Client.ID := [], Client.CreatedAt := 0, Client.UpdatedAt := 0\<rparr>" by simp
  then have "v\<lparr>Client.ID := i, Client.CreatedAt := c, Client.UpdatedAt := u\<rparr> =
        v'\<lparr>Client.ID := i, Client.CreatedAt := c, Client.UpdatedAt := u\<rparr>" for i c u
    by (cases v; cases v') simp
  with TClient d' show ?thesis by (simp add: Create_TClient)
next
  case (TOther x)
  with assms show ?thesis by (cases d') simp_all
qed

lemma creates_ignores_assigned:
  "map own_fields ds = map own_fields ds' \<Longrightarrow> creates s ds w = creates s ds' w"
proof (induction ds arbitrary: ds' s w)
  case Nil
  then show ?case by simp
next
  case (Cons d ds)
  then obtain d' ds'' where ds': "ds' = d' # ds''" and d: "own_fields d = own_fields d'"
    and rest: "map own_fields ds = map own_fields ds''" by (cases ds') auto
  from d have "Create s d w = Create s d' w" by (rule Create_ignores_assigned)
  with Cons.IH [OF rest] ds' show ?case by (simp split: prod.splits)
qed

lemma creates_listed:
  assumes "t \<noteq> OtherTy" and "list_all (\<lambda>d. typeOf d = t) raws"
  shows "\<exists>rs s' w'. creates s raws w = (rs, s', w') \<and>
     map getID rs = map (\<lambda>n. Some (UUID_String (uuids w n))) [draws w ..< draws w + length raws]"
  using assms(2)
proof (induction raws arbitrary: s w)
  case Nil
  then show ?case by simp
next
  case (Cons d ds)
  let ?w1 = "w\<lparr>draws := Suc (draws w), ticks := Suc (Suc (ticks w))\<rparr>"
  from Cons.prems assms(1) have "typeOf d \<noteq> OtherTy" and ds: "list_all (\<lambda>d. typeOf d = t) ds"
    by simp_all
  from Create_listed [OF this(1), of s w] obtain r where
    r: "Create s d w = (r, s\<lparr>items := (items s)(UUID_String (uuids w (draws w)) \<mapsto> r)\<rparr>, ?w1)"
      "getID r = Some (UUID_String (uuids w (draws w)))"
    by blast
  from Cons.IH [OF ds, of "s\<lparr>items := (items s)(UUID_String (uuids w (draws w)) \<mapsto> r)\<rparr>" ?w1]
  obtain rs s' w' where
    rs: "creates (s\<lparr>items := (items s)(UUID_String (uuids w (draws w)) \<mapsto> r)\<rparr>) ds ?w1 = (rs, s', w')"
      "map getID rs = map (\<lambda>n. Some (UUID_String (uuids w n))) [Suc (draws w) ..< Suc (draws w) + length ds]"
    by (auto simp del: upt_Suc)
  have "[draws w ..< draws w + length (d # ds)] =
      draws w # [Suc (draws w) ..< Suc (draws w) + length ds]"
    by (simp add: upt_conv_Cons del: upt_Suc)
  with r rs show ?case by (simp del: upt_Suc)
qed

lemma distinct_strings:
  assumes "collision_free w n"
  shows "distinct (map (\<lambda>n. Some (UUID_String (uuids w n))) [draws w ..< draws w + n])"
proof -
  let ?ns = "[draws w ..< draws w + n]"
  from assms have dist: "distinct (map (uuids w) ?ns)"
    by (simp add: collision_free_def)
  have len: "length (uuids w m) = 16" if "draws w \<le> m" and "m < draws w + n" for m
  proof -
    from that have "m - draws w < n" and "draws w + (m - draws w) = m" by simp_all
    with assms show ?thesis unfolding collision_free_def by metis
  qed
  have "inj_on UUID_String (set (map (uuids w) ?ns))"
    by (rule inj_onI, rule UUID_String_inj) (auto simp: len)
  with dist have "distinct (map UUID_String (map (uuids w) ?ns))"
    by (simp only: distinct_map [of UUID_String])
  moreover have "distinct xs \<Longrightarrow> distinct (map Some xs)" for xs :: "string list"
    by (simp add: distinct_map)
  ultimately have "distinct (map Some (map UUID_String (map (uuids w) ?ns)))" by blast
  then show ?thesis by (simp add: comp_def)
qed

lemma collision_free_env0: "collision_free env0 (Suc (Suc 0))"
  by (simp add: collision_free_def env0_def less_Suc_eq upt_conv_Cons)

text \<open>
  Claim C2, as the code has it. For every sequence of \<^verbatim>\<open>Create\<close> calls on a fresh
  store of items or of clients: every call returns a record with an identifier that is
  not empty; the identifiers returned are pairwise distinct when the identifiers drawn
  do not collide; and the outcome is the same for any other raw records that differ
  from the given ones only in the identifier and timestamp fields, that is, the values
  the caller supplied there are discarded.
\<close>

theorem creates_on_fresh_store:
  assumes "t \<noteq> OtherTy" and "list_all (\<lambda>d. typeOf d = t) raws"
  shows "\<exists>rs s' w'. creates NewMemoryStore raws w = (rs, s', w') \<and> length rs = length raws \<and>
     None \<notin> set (map getID rs) \<and> Some [] \<notin> set (map getID rs) \<and>
     (collision_free w (length raws) \<longrightarrow> distinct (map getID rs)) \<and>
     (\<forall>raws'. map own_fields raws' = map own_fields raws \<longrightarrow>
        creates NewMemoryStore raws' w = (rs, s', w'))"
proof -
  from creates_listed [OF assms, of NewMemoryStore w] obtain rs s' w' where
    run: "creates NewMemoryStore raws w = (rs, s', w')"
    and ids: "map getID rs =
      map (\<lambda>n. Some (UUID_String (uuids w n))) [draws w ..< draws w + length raws]"
    by blast
  from ids have "length (map getID rs) = length raws" by (simp only: length_map) simp
  then have "length rs = length raws" by simp
  moreover have "None \<notin> set (map getID rs)" and "Some [] \<notin> set (map getID rs)"
    unfolding ids by (auto simp: UUID_String_not_empty [symmetric])
  moreover from ids have "distinct (map getID rs)" if "collision_free w (length raws)"
    using distinct_strings [OF that] by simp
  moreover have "creates NewMemoryStore raws' w = (rs, s', w')"
    if "map own_fields raws' = map own_fields raws" for raws'
    using creates_ignores_assigned [OF that, of NewMemoryStore w] run by simp
  ultimately show ?thesis using run by blast
qed

theorem creates_on_fresh_store_witness:
  "ItemTy \<noteq> OtherTy \<and> typeOf (TItem laptop :: unit T) = ItemTy \<and>
   typeOf (TItem laptop_pro :: unit T) = ItemTy \<and>
   collision_free env0 (length [TItem laptop :: unit T, TItem laptop_pro]) \<and>
   (\<exists>rs s' w'. creates NewMemoryStore [TItem laptop :: unit T, TItem laptop_pro] env0 = (rs, s', w') \<and>
      length rs = 2 \<and> None \<notin> set (map getID rs) \<and> Some [] \<notin> set (map getID rs) \<and>
      distinct (map getID rs) \<and>
      creates NewMemoryStore [TItem (laptop\<lparr>Item.ID := ''chosen'', Item.CreatedAt := 5\<rparr>),
         TItem (laptop_pro\<lparr>Item.UpdatedAt := 7\<rparr>)] env0 = (rs, s', w'))"
proof -
  from creates_on_fresh_store [of ItemTy "[TItem laptop :: unit T, TItem laptop_pro]" env0]
  obtain rs s' w' where
    "creates NewMemoryStore [TItem laptop :: unit T, TItem laptop_pro] env0 = (rs, s', w')"
    and "length rs = 2" and "None \<notin> set (map getID rs)" and "Some [] \<notin> set (map getID rs)"
    and "collision_free env0 (Suc (Suc 0)) \<longrightarrow> distinct (map getID rs)"
    and "\<forall>raws'. map own_fields raws' = map own_fields [TItem laptop :: unit T, TItem laptop_pro] \<longrightarrow>
        creates NewMemoryStore raws' env0 = (rs, s', w')"
    by auto
  moreover have "map own_fields [TItem (laptop\<lparr>Item.ID := ''chosen'', Item.CreatedAt := 5\<rparr>),
         TItem (laptop_pro\<lparr>Item.UpdatedAt := 7\<rparr>)] =
       map own_fields [TItem laptop :: unit T, TItem laptop_pro]"
    by (simp add: laptop_def laptop_pro_def)
  ultimately have "creates NewMemoryStore [TItem laptop :: unit T, TItem laptop_pro] env0 = (rs, s', w') \<and>
      length rs = 2 \<and> None \<notin> set (map getID rs) \<and> Some [] \<notin> set (map getID rs) \<and>
      distinct (map getID rs) \<and>
      creates NewMemoryStore [TItem (laptop\<lparr>Item.ID := ''chosen'', Item.CreatedAt := 5\<rparr>),
         TItem (laptop_pro\<lparr>Item.UpdatedAt := 7\<rparr>)] env0 = (rs, s', w')"
    using collision_free_env0 by blast
  then show ?thesis using collision_free_env0 by (intro conjI exI) simp_all
qed

text \<open>
  Claim C2 as stated, for any record shape, fails for a shape that the type switch does
  not list: two \<^verbatim>\<open>Create\<close> calls on a fresh \<^verbatim>\<open>MemoryStore[models.Order]\<close> return the
  order as the caller passed it, both times with the same, empty identifier.
\<close>

theorem creates_other_shape:
  "creates NewMemoryStore [TOther pending, TOther pending] env0 =
     ([TOther pending, TOther pending], NewMemoryStore, env0) \<and> Order.ID pending = []"
  by (simp add: Create_TOther pending_def)

subsection \<open>Create followed by GetByID\<close>

text \<open>
  Claim C3, as the code has it. For a store of items or of clients, in any state, and
  every raw record, \<^verbatim>\<open>Create\<close> returns a record that has an identifier, and \<^verbatim>\<open>GetByID\<close>
  on that identifier in the resulting store finds a record equal to the returned one.
\<close>

theorem Create_then_GetByID:
  assumes "typeOf raw \<noteq> OtherTy"
  shows "\<exists>r s' w' i. Create s raw w = (r, s', w') \<and> getID r = Some i \<and> GetByID s' i = Some r"
  using assms by (cases raw) (simp_all add: Create_TItem Create_TClient GetByID_def)

theorem Create_then_GetByID_witness:
  "typeOf (TClient alice :: unit T) \<noteq> OtherTy \<and>
   (\<exists>r s' w' i. Create (NewMemoryStore :: unit MemoryStore) (TClient alice) env0 = (r, s', w') \<and>
      getID r = Some i \<and> GetByID s' i = Some r)"
  using Create_then_GetByID [of "TClient alice" "NewMemoryStore :: unit MemoryStore" env0] by simp

text \<open>
  Claim C3 as stated, for any record shape, fails for a shape that the type switch does
  not list: in a \<^verbatim>\<open>MemoryStore[models.Order]\<close> the order comes back as it was passed, and
  looking its identifier up in the resulting store finds nothing.
\<close>

theorem Create_then_GetByID_other_shape:
  "fst (Create NewMemoryStore (TOther pending) env0) = TOther pending \<and>
   GetByID (fst (snd (Create NewMemoryStore (TOther pending) env0))) (Order.ID pending) = None"
  by (simp add: Create_TOther GetByID_def items_NewMemoryStore)

subsection \<open>Absent identifiers\<close>

text \<open>
  Claim C5. For every store and every identifier that is not a key of its map,
  \<^verbatim>\<open>Update\<close> reports not-found and \<^verbatim>\<open>Delete\<close> returns false, and the store after
  either call is the store before it (the environment too: the clock is not read).
\<close>

theorem absent_id_is_noop:
  assumes "items s ident = None"
  shows "Update s ident raw w = Inr (None, s, w) \<and> Delete s ident = (False, s)"
  using assms by (simp add: Update_absent Delete_absent)

theorem absent_id_is_noop_witness:
  "items (NewMemoryStore :: unit MemoryStore) ''missing'' = None \<and>
   Update (NewMemoryStore :: unit MemoryStore) ''missing'' (TItem laptop) env0 =
     Inr (None, NewMemoryStore, env0) \<and>
   Delete (NewMemoryStore :: unit MemoryStore) ''missing'' = (False, NewMemoryStore)"
  using absent_id_is_noop [of "NewMemoryStore :: unit MemoryStore" "''missing''" "TItem laptop" env0]
  by (simp add: items_NewMemoryStore)

subsection \<open>Timestamps of a created item\<close>

text \<open>
  Claim C7, as the code has it. \<^verbatim>\<open>Create\<close> reads the clock twice: the record returned
  for a raw item has a non-empty identifier, its creation timestamp is the first
  reading and its modification timestamp the second, so that on a clock that does not
  run backwards the creation timestamp is at most the modification timestamp.
\<close>

theorem Create_item_timestamps:
  assumes "clock_monotone w"
  shows "\<exists>v s' w'. Create s (TItem raw) w = (TItem v, s', w') \<and> Item.ID v \<noteq> [] \<and>
     Item.CreatedAt v = now w (ticks w) \<and> Item.UpdatedAt v = now w (Suc (ticks w)) \<and>
     Item.CreatedAt v \<le> Item.UpdatedAt v"
  using assms by (simp add: Create_TItem UUID_String_not_empty clock_monotone_def)

theorem Create_item_timestamps_witness:
  "clock_monotone env0 \<and>
   (\<exists>v s' w'. Create (NewMemoryStore :: unit MemoryStore) (TItem laptop) env0 = (TItem v, s', w') \<and>
     Item.ID v \<noteq> [] \<and> Item.CreatedAt v = now env0 (ticks env0) \<and>
     Item.UpdatedAt v = now env0 (Suc (ticks env0)) \<and> Item.CreatedAt v \<le> Item.UpdatedAt v)"
  using Create_item_timestamps [of env0 "NewMemoryStore :: unit MemoryStore" laptop]
  by (simp add: clock_monotone_env0)

text \<open>
  Claim C7 as stated, with the two timestamps equal, fails whenever the clock has
  advanced between the two readings: creating the laptop in the example environment
  gives a creation timestamp of 0 and a modification timestamp of 1.
\<close>

theorem Create_item_timestamps_differ:
  "getCreatedAt (fst (Create (NewMemoryStore :: unit MemoryStore) (TItem laptop) env0)) \<noteq>
   getUpdatedAt (fst (Create (NewMemoryStore :: unit MemoryStore) (TItem laptop) env0))"
  by (simp add: Create_TItem env0_def)

subsection \<open>Shapes that the type switch does not list\<close>

text \<open>
  Claim C9. For a type parameter other than \<^verbatim>\<open>models.Item\<close> and \<^verbatim>\<open>models.Client\<close>,
  \<^verbatim>\<open>Create\<close> returns its argument unchanged and leaves the store (and the
  environment: no identifier is drawn, the clock is not read) as it was.
\<close>

theorem Create_other_shape:
  assumes "typeOf data = OtherTy"
  shows "Create s data w = (data, s, w)"
  using assms by (cases data) (simp_all add: Create_TOther)

theorem Create_other_shape_witness:
  "typeOf (TOther pending) = OtherTy \<and>
   Create NewMemoryStore (TOther pending) env0 = (TOther pending, NewMemoryStore, env0)"
  using Create_other_shape [of "TOther pending" NewMemoryStore env0] by simp

subsection \<open>Update of a stored record\<close>

text \<open>
  Claim C1. In every state that a store can reach, with a clock that does not run
  backwards, and for every identifier that is a key of the map: \<^verbatim>\<open>Update\<close> succeeds
  and returns a record whose identifier is that key, whose creation timestamp is the
  one of the record stored before, whose modification timestamp is not earlier than the
  one stored before, and which agrees with the raw record on every other field.
\<close>

theorem Update_existing:
  assumes "reachable t (s, w)" and "clock_monotone w"
    and "items s ident = Some old" and "typeOf raw = t"
  shows "\<exists>r s' w'. Update s ident raw w = Inr (Some r, s', w') \<and>
     getID r = Some ident \<and>
     (\<exists>c. getCreatedAt old = Some c \<and> getCreatedAt r = Some c) \<and>
     (\<exists>u u'. getUpdatedAt old = Some u \<and> getUpdatedAt r = Some u' \<and> u \<le> u') \<and>
     own_fields r = own_fields raw"
proof -
  from reachable_present [OF assms(1,3)] assms(4)
  have ty: "typeOf old = typeOf raw" "typeOf raw \<noteq> OtherTy" by simp_all
  from Update_present [OF assms(3) ty, of w] obtain r where
    upd: "Update s ident raw w =
       Inr (Some r, s\<lparr>items := (items s)(ident \<mapsto> r)\<rparr>, w\<lparr>ticks := Suc (ticks w)\<rparr>)"
    and r: "getID r = Some ident" "getCreatedAt r = getCreatedAt old"
      "getUpdatedAt r = Some (now w (ticks w))" "own_fields r = own_fields raw"
    by blast
  from ty obtain c u where old: "getCreatedAt old = Some c" "getUpdatedAt old = Some u"
    by (cases old; cases raw) simp_all
  from reachable_facts(4) [OF assms(1,2)] assms(3) old(2) have "u \<le> now w (ticks w)"
    unfolding not_after_clock_def by blast
  with upd r old show ?thesis by simp
qed

theorem Update_existing_witness:
  "reachable ItemTy (store2, env2) \<and> clock_monotone env2 \<and>
   items store2 id1 = Some laptop1 \<and> typeOf (TItem laptop_pro :: unit T) = ItemTy \<and>
   (\<exists>r s' w'. Update store2 id1 (TItem laptop_pro) env2 = Inr (Some r, s', w') \<and>
     getID r = Some id1 \<and>
     (\<exists>c. getCreatedAt laptop1 = Some c \<and> getCreatedAt r = Some c) \<and>
     (\<exists>u u'. getUpdatedAt laptop1 = Some u \<and> getUpdatedAt r = Some u' \<and> u \<le> u') \<and>
     own_fields r = own_fields (TItem laptop_pro))"
  using Update_existing [OF reachable_store2 clock_monotone_env2 laptop1_in_store2,
      of "TItem laptop_pro"]
  by (simp add: reachable_store2 clock_monotone_env2 laptop1_in_store2)

text \<open>
  Claim C4. In every state that a store of any record shape can reach and for every
  identifier that is a key of the map, \<^verbatim>\<open>Update\<close> reports found and returns the
  replacement built from the raw record: the fields of the raw record with the key as
  identifier, the creation timestamp of the record stored before and the clock's
  reading as modification timestamp. The store afterwards is the store before with
  exactly that record under the key, so a following \<^verbatim>\<open>GetByID\<close> yields the record
  returned, and no other entry changes. (A store of a shape that the type switch does
  not list never has a key.)
\<close>

theorem Update_replaces_entry:
  assumes "reachable t (s, w)" and "items s ident = Some old" and "typeOf raw = t"
  shows "\<exists>r s' w'. Update s ident raw w = Inr (Some r, s', w') \<and>
     typeOf r = t \<and> getID r = Some ident \<and> getCreatedAt r = getCreatedAt old \<and>
     getUpdatedAt r = Some (now w (ticks w)) \<and> own_fields r = own_fields raw \<and>
     s' = s\<lparr>items := (items s)(ident \<mapsto> r)\<rparr> \<and> w' = w\<lparr>ticks := Suc (ticks w)\<rparr> \<and>
     items s' ident = Some r \<and> GetByID s' ident = Some r \<and>
     (\<forall>k. k \<noteq> ident \<longrightarrow> items s' k = items s k)"
proof -
  from reachable_present [OF assms(1,2)] assms(3)
  have ty: "typeOf old = typeOf raw" "typeOf raw \<noteq> OtherTy" by simp_all
  from Update_present [OF assms(2) ty, of w] obtain r where
    "Update s ident raw w =
       Inr (Some r, s\<lparr>items := (items s)(ident \<mapsto> r)\<rparr>, w\<lparr>ticks := Suc (ticks w)\<rparr>)"
    and "typeOf r = typeOf raw" and "getID r = Some ident"
    and "getCreatedAt r = getCreatedAt old" and "getUpdatedAt r = Some (now w (ticks w))"
    and "own_fields r = own_fields raw"
    by blast
  with assms(3) show ?thesis by (simp add: GetByID_def)
qed

theorem Update_replaces_entry_witness:
  "reachable ItemTy (store2, env2) \<and> items store2 id1 = Some laptop1 \<and>
   typeOf (TItem laptop_pro :: unit T) = ItemTy \<and>
   (\<exists>r s' w'. Update store2 id1 (TItem laptop_pro) env2 = Inr (Some r, s', w') \<and>
     r = TItem (laptop_pro\<lparr>Item.ID := id1, Item.CreatedAt := 0, Item.UpdatedAt := 4\<rparr>) \<and>
     r \<noteq> laptop1 \<and> items s' id1 = Some r \<and> GetByID s' id1 = Some r \<and>
     items s' id2 = items store2 id2)"
proof -
  from Update_replaces_entry [OF reachable_store2 laptop1_in_store2, of "TItem laptop_pro"]
  obtain r s' w' where upd: "Update store2 id1 (TItem laptop_pro) env2 = Inr (Some r, s', w')"
    and r: "typeOf r = ItemTy" "getID r = Some id1" "getCreatedAt r = getCreatedAt laptop1"
      "getUpdatedAt r = Some (now env2 (ticks env2))"
      "own_fields r = own_fields (TItem laptop_pro)"
    and s': "items s' id1 = Some r" "GetByID s' id1 = Some r"
      "\<forall>k. k \<noteq> id1 \<longrightarrow> items s' k = items store2 k"
    by auto
  from r(1) obtain v where v: "r = TItem v" by (cases r) simp_all
  with r have "v = laptop_pro\<lparr>Item.ID := id1, Item.CreatedAt := 0, Item.UpdatedAt := 4\<rparr>"
    by (cases v) (simp add: laptop1_eq laptop_pro_def env2_fields)
  with v have eq: "r = TItem (laptop_pro\<lparr>Item.ID := id1, Item.CreatedAt := 0, Item.UpdatedAt := 4\<rparr>)"
    by simp
  then have "r \<noteq> laptop1" by (simp add: updated_laptop_differs)
  moreover from s'(3) id1_not_id2 have "items s' id2 = items store2 id2" by metis
  ultimately show ?thesis using upd eq s'(1,2)
    by (simp add: reachable_store2 laptop1_in_store2)
qed

subsection \<open>Deletion of a stored record\<close>

text \<open>
  Claim C6. In every state that a store can reach and for every identifier that is a
  key of the map, \<^verbatim>\<open>Delete\<close> returns true; afterwards \<^verbatim>\<open>GetByID\<close> of that identifier
  reports not-found, \<^verbatim>\<open>GetAll\<close>, in whatever order the runtime visits the map, returns no
  record with that identifier and returns every record that was stored under another
  key, and the entries under the other keys are unchanged.
\<close>

theorem Delete_existing:
  assumes "reachable t (s, w)" and "items s ident = Some old"
  shows "\<exists>s'. Delete s ident = (True, s') \<and> GetByID s' ident = None \<and>
     (\<forall>order. iteration_order s' order \<longrightarrow>
        (\<forall>r \<in> set (GetAll s' order). getID r \<noteq> Some ident) \<and>
        (\<forall>k r. k \<noteq> ident \<longrightarrow> items s k = Some r \<longrightarrow> r \<in> set (GetAll s' order))) \<and>
     (\<forall>k. k \<noteq> ident \<longrightarrow> items s' k = items s k)"
proof -
  let ?s' = "s\<lparr>items := (items s)(ident := None)\<rparr>"
  have del: "Delete s ident = (True, ?s')" using assms(2) by (rule Delete_present)
  have agree: "key_field_agreement s" using assms(1) by (rule reachable_facts)
  have "getID r \<noteq> Some ident" if "r \<in> set (GetAll ?s' order)" for r order
  proof -
    from that obtain k where "items ?s' k = Some r" by (auto simp: GetAll_set)
    then have "k \<noteq> ident" and "items s k = Some r" by (auto split: if_splits)
    with agree show ?thesis by (auto simp: key_field_agreement_def)
  qed
  moreover have "r \<in> set (GetAll ?s' order)"
    if "iteration_order ?s' order" and "k \<noteq> ident" and "items s k = Some r" for order k r
  proof -
    from that have "k \<in> set order" by (auto simp: iteration_order_def)
    with that(2,3) show ?thesis by (auto simp: GetAll_set)
  qed
  ultimately show ?thesis using del by (simp add: GetByID_def)
qed

theorem Delete_existing_witness:
  "reachable ItemTy (store2, env2) \<and> items store2 id1 = Some laptop1 \<and>
   (\<exists>s'. Delete store2 id1 = (True, s') \<and> GetByID s' id1 = None \<and>
     iteration_order s' [id2] \<and> GetAll s' [id2] = [phone1] \<and> getID phone1 \<noteq> Some id1 \<and>
     items s' id2 = items store2 id2)"
proof -
  from Delete_existing [OF reachable_store2 laptop1_in_store2]
  obtain s' where del: "Delete store2 id1 = (True, s')" and get: "GetByID s' id1 = None"
    and all: "\<forall>order. iteration_order s' order \<longrightarrow>
        (\<forall>r \<in> set (GetAll s' order). getID r \<noteq> Some id1) \<and>
        (\<forall>k r. k \<noteq> id1 \<longrightarrow> items store2 k = Some r \<longrightarrow> r \<in> set (GetAll s' order))"
    and rest: "\<forall>k. k \<noteq> id1 \<longrightarrow> items s' k = items store2 k"
    by auto
  from del have s': "items s' = [id2 \<mapsto> phone1]"
    by (auto simp: Delete_def items_store2 id1_not_id2 fun_upd_twist)
  then have order: "iteration_order s' [id2]" and list: "GetAll s' [id2] = [phone1]"
    by (simp_all add: iteration_order_def GetAll_def)
  from all order list have "getID phone1 \<noteq> Some id1" by simp
  moreover from rest id1_not_id2 have "items s' id2 = items store2 id2" by metis
  ultimately show ?thesis using del get order list
    by (simp add: reachable_store2 laptop1_in_store2)
qed

subsection \<open>Identifiers of stored records\<close>

text \<open>
  Claim C8. In every reachable state of a store every record is stored under its own
  identifier, which is not empty, so that two entries never carry the same identifier,
  and after any step the same holds again. The methods keep it as follows. \<^verbatim>\<open>Create\<close>
  on a listed shape returns a record with the freshly drawn identifier and puts it
  under that identifier, touching no other key (on any other shape it leaves the store
  as it is). \<^verbatim>\<open>Update\<close> does not panic, leaves the set of keys as it is, changes no
  entry but the one under the given key, and the record it puts there has the identifier
  of the record that was there. \<^verbatim>\<open>Delete\<close> removes the given key and changes no other
  entry. \<^verbatim>\<open>GetAll\<close> and \<^verbatim>\<open>GetByID\<close> return values only.
\<close>

theorem identifiers_invariant:
  assumes "reachable t (s, w)"
  shows "(\<forall>k r. items s k = Some r \<longrightarrow> getID r = Some k \<and> k \<noteq> []) \<and>
     (\<forall>k k' r r'. items s k = Some r \<and> items s k' = Some r' \<and> getID r = getID r' \<longrightarrow> k = k') \<and>
     (\<forall>s' w'. step t (s, w) (s', w') \<longrightarrow>
        (\<forall>k r. items s' k = Some r \<longrightarrow> getID r = Some k \<and> k \<noteq> []) \<and>
        (\<forall>k r r'. items s k = Some r \<and> items s' k = Some r' \<longrightarrow> getID r' = getID r)) \<and>
     (\<forall>data. typeOf data = t \<longrightarrow>
        (\<exists>r s' w'. Create s data w = (r, s', w') \<and>
           (t = OtherTy \<longrightarrow> s' = s) \<and>
           (t \<noteq> OtherTy \<longrightarrow>
              getID r = Some (UUID_String (uuids w (draws w))) \<and>
              s' = s\<lparr>items := (items s)(UUID_String (uuids w (draws w)) \<mapsto> r)\<rparr>))) \<and>
     (\<forall>ident data. typeOf data = t \<longrightarrow>
        (\<exists>res s' w'. Update s ident data w = Inr (res, s', w') \<and>
           dom (items s') = dom (items s) \<and>
           (\<forall>k. k \<noteq> ident \<longrightarrow> items s' k = items s k) \<and>
           (\<forall>old. items s ident = Some old \<longrightarrow>
              (\<exists>r. res = Some r \<and> items s' ident = Some r \<and> getID r = getID old)))) \<and>
     (\<forall>ident. \<exists>b s'. Delete s ident = (b, s') \<and> items s' ident = None \<and>
        (\<forall>k. k \<noteq> ident \<longrightarrow> items s' k = items s k))"
proof -
  have own: "getID r = Some k \<and> k \<noteq> []" if "reachable t (s, w)" and "items s k = Some r"
    for s :: "'a MemoryStore" and w k r
    using reachable_present(3,4) [OF that] by simp
  have uniq: "k = k'" if "items s k = Some r" and "items s k' = Some r'" and "getID r = getID r'"
    for k k' r r'
    using own [OF assms that(1)] own [OF assms that(2)] that(3) by simp
  have keep: "getID r' = getID r"
    if "step t (s, w) (s', w')" and "items s k = Some r" and "items s' k = Some r'"
    for s' w' k r r'
    using own [OF assms that(2)] own [OF reachable.after [OF assms that(1)] that(3)] by simp
  have cr: "\<forall>data. typeOf data = t \<longrightarrow> (\<exists>r s' w'. Create s data w = (r, s', w') \<and>
           (t = OtherTy \<longrightarrow> s' = s) \<and>
           (t \<noteq> OtherTy \<longrightarrow>
              getID r = Some (UUID_String (uuids w (draws w))) \<and>
              s' = s\<lparr>items := (items s)(UUID_String (uuids w (draws w)) \<mapsto> r)\<rparr>))"
  proof (intro allI impI)
    fix data :: "'a T"
    assume ty: "typeOf data = t"
    show "\<exists>r s' w'. Create s data w = (r, s', w') \<and>
           (t = OtherTy \<longrightarrow> s' = s) \<and>
           (t \<noteq> OtherTy \<longrightarrow>
              getID r = Some (UUID_String (uuids w (draws w))) \<and>
              s' = s\<lparr>items := (items s)(UUID_String (uuids w (draws w)) \<mapsto> r)\<rparr>)"
    proof (cases "t = OtherTy")
      case True
      with ty show ?thesis by (simp add: Create_unlisted)
    next
      case False
      with ty Create_listed [of data s w] show ?thesis by auto
    qed
  qed
  have up: "\<forall>ident data. typeOf data = t \<longrightarrow> (\<exists>res s' w'. Update s ident data w = Inr (res, s', w') \<and>
           dom (items s') = dom (items s) \<and>
           (\<forall>k. k \<noteq> ident \<longrightarrow> items s' k = items s k) \<and>
           (\<forall>old. items s ident = Some old \<longrightarrow>
              (\<exists>r. res = Some r \<and> items s' ident = Some r \<and> getID r = getID old)))"
  proof (intro allI impI)
    fix ident and data :: "'a T"
    assume that: "typeOf data = t"
    show "\<exists>res s' w'. Update s ident data w = Inr (res, s', w') \<and>
           dom (items s') = dom (items s) \<and>
           (\<forall>k. k \<noteq> ident \<longrightarrow> items s' k = items s k) \<and>
           (\<forall>old. items s ident = Some old \<longrightarrow>
              (\<exists>r. res = Some r \<and> items s' ident = Some r \<and> getID r = getID old))"
    proof (cases "items s ident")
      case None
      then show ?thesis by (simp add: Update_absent)
    next
      case (Some old)
      from reachable_present [OF assms Some] that
      have ty: "typeOf old = typeOf data" "typeOf data \<noteq> OtherTy" and i: "getID old = Some ident"
        by simp_all
      from Update_present [OF Some ty, of w] obtain r where
        "Update s ident data w =
           Inr (Some r, s\<lparr>items := (items s)(ident \<mapsto> r)\<rparr>, w\<lparr>ticks := Suc (ticks w)\<rparr>)"
        and "getID r = Some ident" by blast
      with Some i show ?thesis by (auto simp: insert_absorb)
    qed
  qed
  have del: "\<forall>ident. \<exists>b s'. Delete s ident = (b, s') \<and> items s' ident = None \<and>
        (\<forall>k. k \<noteq> ident \<longrightarrow> items s' k = items s k)"
  proof
    fix ident
    show "\<exists>b s'. Delete s ident = (b, s') \<and> items s' ident = None \<and>
        (\<forall>k. k \<noteq> ident \<longrightarrow> items s' k = items s k)"
      by (cases "items s ident") (auto simp: Delete_def)
  qed
  have c1: "\<forall>k r. items s k = Some r \<longrightarrow> getID r = Some k \<and> k \<noteq> []"
    using own [OF assms] by blast
  have c2: "\<forall>k k' r r'. items s k = Some r \<and> items s k' = Some r' \<and> getID r = getID r' \<longrightarrow> k = k'"
    using uniq by blast
  have c3: "\<forall>s' w'. step t (s, w) (s', w') \<longrightarrow>
        (\<forall>k r. items s' k = Some r \<longrightarrow> getID r = Some k \<and> k \<noteq> []) \<and>
        (\<forall>k r r'. items s k = Some r \<and> items s' k = Some r' \<longrightarrow> getID r' = getID r)"
  proof (intro allI impI conjI)
    fix s' w' k r
    assume "step t (s, w) (s', w')" and "items s' k = Some r"
    then show "getID r = Some k" and "k \<noteq> []"
      using own [OF reachable.after [OF assms]] by blast+
  next
    fix s' w' k r r'
    assume "step t (s, w) (s', w')" and "items s k = Some r \<and> items s' k = Some r'"
    then show "getID r' = getID r" using keep by blast
  qed
  show ?thesis by (intro conjI) (fact c1 c2 c3 cr up del)+
qed

theorem identifiers_invariant_witness:
  "reachable ItemTy (store2, env2) \<and>
   items store2 id1 = Some laptop1 \<and> getID laptop1 = Some id1 \<and> id1 \<noteq> [] \<and>
   items store2 id2 = Some phone1 \<and> getID phone1 \<noteq> getID laptop1 \<and>
   typeOf (TItem laptop_pro :: unit T) = ItemTy \<and>
   (\<exists>r s' w'. Update store2 id1 (TItem laptop_pro) env2 = Inr (Some r, s', w') \<and>
      step ItemTy (store2, env2) (s', w') \<and> dom (items s') = dom (items store2) \<and>
      items s' id1 = Some r \<and> r \<noteq> laptop1 \<and> getID r = getID laptop1 \<and>
      items s' id2 = Some phone1) \<and>
   (\<exists>r s' w'. Create store2 (TItem laptop_pro) env2 = (r, s', w') \<and>
      getID r = Some (UUID_String (uuids env2 (draws env2))) \<and>
      items s' (UUID_String (uuids env2 (draws env2))) = Some r) \<and>
   (\<exists>b s'. Delete store2 id1 = (b, s') \<and> items s' id1 = None \<and> items s' id2 = Some phone1)"
proof -
  note inv = identifiers_invariant [OF reachable_store2]
  note own = inv [THEN conjunct1, rule_format]
  note uniq = inv [THEN conjunct2, THEN conjunct1, rule_format]
  note cr = inv [THEN conjunct2, THEN conjunct2, THEN conjunct2, THEN conjunct1, rule_format]
  note up = inv [THEN conjunct2, THEN conjunct2, THEN conjunct2, THEN conjunct2, THEN conjunct1,
      rule_format]
  note del = inv [THEN conjunct2, THEN conjunct2, THEN conjunct2, THEN conjunct2, THEN conjunct2,
      rule_format]
  have ty: "typeOf (TItem laptop_pro :: unit T) = ItemTy" by simp
  from own [OF laptop1_in_store2] have a: "getID laptop1 = Some id1" "id1 \<noteq> []" by simp_all
  have b: "getID phone1 \<noteq> getID laptop1"
  proof
    assume "getID phone1 = getID laptop1"
    with uniq [of id2 phone1 id1 laptop1] phone1_in_store2 laptop1_in_store2
    have "id2 = id1" by simp
    with id1_not_id2 show False by simp
  qed
  from up [OF ty, of id1] obtain res s' w' where
    upd: "Update store2 id1 (TItem laptop_pro) env2 = Inr (res, s', w')"
    and d: "dom (items s') = dom (items store2)"
    and rest: "\<forall>k. k \<noteq> id1 \<longrightarrow> items s' k = items store2 k"
    and same: "\<forall>old. items store2 id1 = Some old \<longrightarrow>
        (\<exists>r. res = Some r \<and> items s' id1 = Some r \<and> getID r = getID old)"
    by (elim exE conjE)
  from same [rule_format, OF laptop1_in_store2] obtain r where
    r: "res = Some r" "items s' id1 = Some r" "getID r = getID laptop1" by (elim exE conjE)
  have "Update store2 id1 (TItem laptop_pro) env2 =
      Inr (Some (TItem (laptop_pro\<lparr>Item.ID := id1, Item.CreatedAt := 0,
               Item.UpdatedAt := now env2 (ticks env2)\<rparr>)),
           store2\<lparr>items := (items store2)(id1 \<mapsto>
             TItem (laptop_pro\<lparr>Item.ID := id1, Item.CreatedAt := 0,
               Item.UpdatedAt := now env2 (ticks env2)\<rparr>))\<rparr>,
           env2\<lparr>ticks := Suc (ticks env2)\<rparr>)"
    using Update_TItem [OF laptop1_in_store2 [unfolded laptop1_eq], of laptop_pro env2] by simp
  with upd r(1) have "r = TItem (laptop_pro\<lparr>Item.ID := id1, Item.CreatedAt := 0,
               Item.UpdatedAt := now env2 (ticks env2)\<rparr>)" by simp
  then have new: "r \<noteq> laptop1" by (simp add: laptop1_eq laptop_def laptop_pro_def)
  have st: "step ItemTy (store2, env2) (s', w')"
    by (rule step.update [OF _ upd]) simp
  from rest [rule_format, of id2] id1_not_id2 phone1_in_store2
  have other: "items s' id2 = Some phone1" by simp
  have u: "\<exists>r s' w'. Update store2 id1 (TItem laptop_pro) env2 = Inr (Some r, s', w') \<and>
      step ItemTy (store2, env2) (s', w') \<and> dom (items s') = dom (items store2) \<and>
      items s' id1 = Some r \<and> r \<noteq> laptop1 \<and> getID r = getID laptop1 \<and>
      items s' id2 = Some phone1"
    using upd [unfolded r(1)] st d r(2) new r(3) other by (intro exI conjI)
  from cr [OF ty] obtain cr' cs cw where
    c1: "Create store2 (TItem laptop_pro) env2 = (cr', cs, cw)"
    and c2: "ItemTy \<noteq> OtherTy \<longrightarrow>
          getID cr' = Some (UUID_String (uuids env2 (draws env2))) \<and>
          cs = store2\<lparr>items := (items store2)(UUID_String (uuids env2 (draws env2)) \<mapsto> cr')\<rparr>"
    by (elim exE conjE)
  from c2 have c3: "getID cr' = Some (UUID_String (uuids env2 (draws env2)))"
    and c4: "items cs (UUID_String (uuids env2 (draws env2))) = Some cr'" by simp_all
  have c: "\<exists>r s' w'. Create store2 (TItem laptop_pro) env2 = (r, s', w') \<and>
      getID r = Some (UUID_String (uuids env2 (draws env2))) \<and>
      items s' (UUID_String (uuids env2 (draws env2))) = Some r"
    using c1 c3 c4 by (intro exI conjI)
  from del [of id1] obtain db ds where e1: "Delete store2 id1 = (db, ds)"
    and e2: "items ds id1 = None"
    and e3: "\<forall>k. k \<noteq> id1 \<longrightarrow> items ds k = items store2 k"
    by (elim exE conjE)
  from e3 [rule_format, of id2] id1_not_id2 phone1_in_store2
  have e4: "items ds id2 = Some phone1" by simp
  have e: "\<exists>b s'. Delete store2 id1 = (b, s') \<and> items s' id1 = None \<and> items s' id2 = Some phone1"
    using e1 e2 e4 by (intro exI conjI)
  show ?thesis
    using reachable_store2 laptop1_in_store2 a phone1_in_store2 b ty u c e by (intro conjI)
qed

text \<open>
  Claim C10. Key and \<^verbatim>\<open>ID\<close> field agree in the empty initial store, and \<^verbatim>\<open>Create\<close>,
  \<^verbatim>\<open>Update\<close> and \<^verbatim>\<open>Delete\<close> on a store whose values all have the type of its type
  parameter keep the agreement (and the typing); \<^verbatim>\<open>Update\<close> does not panic there.
\<close>

theorem key_field_agreement_preserved:
  assumes "typed t s" and "key_field_agreement s" and "typeOf data = t"
  shows "typed t (NewMemoryStore :: 'o MemoryStore) \<and>
     key_field_agreement (NewMemoryStore :: 'o MemoryStore) \<and>
     (\<exists>r s' w'. Create s data w = (r, s', w') \<and> typed t s' \<and> key_field_agreement s') \<and>
     (\<exists>r s' w'. Update s ident data w = Inr (r, s', w') \<and> typed t s' \<and> key_field_agreement s') \<and>
     (\<exists>b s'. Delete s ident = (b, s') \<and> typed t s' \<and> key_field_agreement s')"
proof (intro conjI)
  show "typed t (NewMemoryStore :: 'o MemoryStore)"
    by (simp add: typed_def items_NewMemoryStore)
  show "key_field_agreement (NewMemoryStore :: 'o MemoryStore)"
    by (simp add: key_field_agreement_def items_NewMemoryStore)
  show "\<exists>r s' w'. Create s data w = (r, s', w') \<and> typed t s' \<and> key_field_agreement s'"
  proof (cases "t = OtherTy")
    case True
    with assms show ?thesis by (cases data) (simp_all add: Create_TOther)
  next
    case False
    with assms(3) Create_listed [of data s w] obtain r where
      "Create s data w =
         (r, s\<lparr>items := (items s)(UUID_String (uuids w (draws w)) \<mapsto> r)\<rparr>,
          w\<lparr>draws := Suc (draws w), ticks := Suc (Suc (ticks w))\<rparr>)"
      and "typeOf r = t" and "getID r = Some (UUID_String (uuids w (draws w)))"
      by auto
    with assms(1,2) show ?thesis by (simp add: typed_insert agreement_insert)
  qed
  show "\<exists>r s' w'. Update s ident data w = Inr (r, s', w') \<and> typed t s' \<and> key_field_agreement s'"
  proof (cases "items s ident")
    case None
    with assms(1,2) show ?thesis by (simp add: Update_absent)
  next
    case (Some old)
    with assms have ty: "typeOf old = typeOf data" and "getID old = Some ident"
      by (simp_all add: typed_def key_field_agreement_def)
    then have "typeOf data \<noteq> OtherTy" by (cases old) auto
    from Update_present [OF Some ty this, of w] assms
    show ?thesis by (auto simp: typed_insert agreement_insert)
  qed
  show "\<exists>b s'. Delete s ident = (b, s') \<and> typed t s' \<and> key_field_agreement s'"
    using assms(1,2)
    by (cases "items s ident") (auto simp: Delete_def typed_remove agreement_remove)
qed

theorem key_field_agreement_preserved_witness:
  "typed ItemTy store2 \<and> key_field_agreement store2 \<and>
   typeOf (TItem laptop_pro :: unit T) = ItemTy \<and>
   typed ItemTy (NewMemoryStore :: unit MemoryStore) \<and>
   key_field_agreement (NewMemoryStore :: unit MemoryStore) \<and>
   (\<exists>r s' w'. Create store2 (TItem laptop_pro) env2 = (r, s', w') \<and>
      typed ItemTy s' \<and> key_field_agreement s') \<and>
   (\<exists>r s' w'. Update store2 id1 (TItem laptop_pro) env2 = Inr (r, s', w') \<and>
      typed ItemTy s' \<and> key_field_agreement s') \<and>
   (\<exists>b s'. Delete store2 id1 = (b, s') \<and> typed ItemTy s' \<and> key_field_agreement s')"
proof -
  have "typed ItemTy store2" and "key_field_agreement store2"
    using reachable_store2 by (rule reachable_facts)+
  moreover have "typeOf (TItem laptop_pro :: unit T) = ItemTy" by simp
  ultimately show ?thesis
    using key_field_agreement_preserved [of ItemTy store2 "TItem laptop_pro" env2 id1]
    by simp
qed

end
